theory Spec2Isabelle
  imports Main "HOL-Library.Sublist"
begin

section \<open>The job manager: data model\<close>

text \<open>
  The development follows \<^verbatim>\<open>pkg/job_manager/job_manager.go\<close> (the library) and the
  server half of \<^verbatim>\<open>cmd/client/main.go\<close> (the job store and the output handler).

  Go strings are byte sequences and are modelled as \<^typ>\<open>string\<close>. Every critical section
  of the source (the code between a \<^verbatim>\<open>Lock\<close>/\<^verbatim>\<open>RLock\<close> and the matching unlock) is one
  atomic step of the model, so the mutex fields themselves carry no state here.
\<close>

subsection \<open>JobStatus\<close>

datatype JobStatus = StatusRunning | StatusCompleted | StatusFailed | StatusTerminated

subsection \<open>Errors and panics\<close>

text \<open>
  A Go \<^verbatim>\<open>error\<close> is either built by \<^verbatim>\<open>errors.New\<close> in this repository or handed over by
  the standard library (\<^verbatim>\<open>os\<close>, \<^verbatim>\<open>os/exec\<close>); the latter are opaque to the code, which
  only passes them on. A run-time panic is a separate outcome.
\<close>

datatype error = errors_New string | os_error string

datatype panic = NilPointerDereference | IndexOutOfRange

subsection \<open>The process handle\<close>

text \<open>
  \<^verbatim>\<open>Cmd.Process\<close> is the handle of the operating-system process. The only thing the code does
  with it is to send \<^verbatim>\<open>os.Interrupt\<close>; the model records the signals the process was sent.
\<close>

datatype Signal = Interrupt

record Process =
  Delivered :: "Signal list"

record Cmd =
  Path :: string
  Args :: "string list"
  Process :: Process

subsection \<open>Log, LogReader, Job\<close>

record Log =
  Lines :: "string list"

text \<open>
  A \<^verbatim>\<open>*Log\<close> is an index into the heap of allocated \<^verbatim>\<open>Log\<close> objects, and a \<^verbatim>\<open>*Job\<close> an
  index into the heap of allocated \<^verbatim>\<open>Job\<close> objects. An index outside the heap stands for
  \<^verbatim>\<open>nil\<close>: dereferencing it panics.
\<close>

type_synonym LogRef = nat
type_synonym heap = "Log list"

definition deref :: "'a list \<Rightarrow> nat \<Rightarrow> 'a option" where
  "deref h a = (if a < length h then Some (h ! a) else None)"

record LogReader =
  CurrentPosition :: int
  log :: LogRef

record Job =
  Cmd :: Cmd
  Status :: JobStatus
  Log :: LogRef

type_synonym JobRef = nat

record memory =
  Jobs :: "Job list"
  Logs :: heap

section \<open>Log\<close>

definition NewLog :: "heap \<Rightarrow> LogRef \<times> heap" where
  "NewLog h = (length h, h @ [\<lparr>Lines = []\<rparr>])"

definition AppendLine :: "LogRef \<Rightarrow> string \<Rightarrow> heap \<Rightarrow> panic + heap" where
  "AppendLine a line h =
     (case deref h a of
        None \<Rightarrow> Inl NilPointerDereference
      | Some lg \<Rightarrow> Inr (h[a := lg\<lparr>Lines := Lines lg @ [line]\<rparr>]))"

section \<open>The environment of a call\<close>

text \<open>
  A call that gives up the log's lock lets the other goroutines run. What they do at the
  \<open>n\<close>-th such point of a schedule is a \<open>tick\<close>: the \<^verbatim>\<open>AppendLine\<close> calls that the capture
  goroutines complete there, in order, and whether the client on whose behalf the caller
  runs has disconnected by then (its RPC context is canceled). No function of the
  repository takes a context or reads such a flag; the field is there so that statements
  about cancellation can be written down.
\<close>

record tick =
  Appended :: "(LogRef \<times> string) list"
  Canceled :: bool

type_synonym schedule = "nat \<Rightarrow> tick"

fun capture :: "(LogRef \<times> string) list \<Rightarrow> heap \<Rightarrow> panic + heap" where
  "capture [] h = Inr h"
| "capture ((a, line) # rest) h =
     (case AppendLine a line h of Inl p \<Rightarrow> Inl p | Inr h' \<Rightarrow> capture rest h')"

text \<open>The heap after the \<open>k\<close> ticks that start at tick \<open>t\<close>.\<close>

fun heap_after :: "schedule \<Rightarrow> nat \<Rightarrow> nat \<Rightarrow> heap \<Rightarrow> panic + heap" where
  "heap_after env t 0 h = Inr h"
| "heap_after env t (Suc k) h =
     (case capture (Appended (env t)) h of
        Inl p \<Rightarrow> Inl p
      | Inr h' \<Rightarrow> heap_after env (Suc t) k h')"

text \<open>
  Two schedules used as examples. In the first the client has disconnected and nothing is
  appended any more. In the second the capture goroutine appends two lines to the log at
  address 0 at tick 1.
\<close>

definition disconnected_idle :: schedule where
  "disconnected_idle = (\<lambda>n. \<lparr>Appended = [], Canceled = True\<rparr>)"

definition line_at_second_tick :: schedule where
  "line_at_second_tick =
     (\<lambda>n. \<lparr>Appended = (if n = 1 then [(0, ''hello''), (0, ''world'')] else []),
           Canceled = (1 \<le> n)\<rparr>)"

section \<open>LogReader\<close>

text \<open>
  \<^verbatim>\<open>ReadNextLine\<close>, first its \<^verbatim>\<open>for\<close> loop. Each iteration runs with the read lock held;
  an iteration that does not leave the loop unlocks, sleeps 10 ms and locks again, and the
  tick of the schedule happens in between. The loop has no other exit, so it is a partial
  function: \<open>None\<close> means that the call never returns.
\<close>

partial_function (option) ReadNextLine_wait ::
  "bool \<Rightarrow> LogReader \<Rightarrow> heap \<Rightarrow> schedule \<Rightarrow> nat \<Rightarrow> (panic + heap \<times> nat) option" where
  "ReadNextLine_wait blocking r h env t =
     (case deref h (log r) of
        None \<Rightarrow> Some (Inl NilPointerDereference)
      | Some lg \<Rightarrow>
          if \<not> blocking \<or> CurrentPosition r < int (length (Lines lg)) then Some (Inr (h, t))
          else (case capture (Appended (env t)) h of
                  Inl p \<Rightarrow> Some (Inl p)
                | Inr h' \<Rightarrow> ReadNextLine_wait blocking r h' env (Suc t)))"

declare ReadNextLine_wait.simps [code]

text \<open>
  The rest of the body runs under the lock the last iteration held. The result is the line
  and the \<^verbatim>\<open>ok\<close> flag, the reader after the call, the heap and the tick at which the call
  returned. A Go \<^verbatim>\<open>int\<close> is 64 bits wide; the position is incremented only while it is
  below the length of a slice, so the increment cannot overflow and \<^typ>\<open>int\<close> is exact.
\<close>

definition ReadNextLine ::
  "bool \<Rightarrow> LogReader \<Rightarrow> heap \<Rightarrow> schedule \<Rightarrow> nat
     \<Rightarrow> (panic + (string \<times> bool) \<times> LogReader \<times> heap \<times> nat) option" where
  "ReadNextLine blocking r h env t =
     (case ReadNextLine_wait blocking r h env t of
        None \<Rightarrow> None
      | Some (Inl p) \<Rightarrow> Some (Inl p)
      | Some (Inr (h', t')) \<Rightarrow>
          (case deref h' (log r) of
             None \<Rightarrow> Some (Inl NilPointerDereference)
           | Some lg \<Rightarrow>
               if CurrentPosition r \<ge> int (length (Lines lg))
               then Some (Inr (('''', False), r, h', t'))
               else if CurrentPosition r < 0 then Some (Inl IndexOutOfRange)
               else Some (Inr ((Lines lg ! nat (CurrentPosition r), True),
                               r\<lparr>CurrentPosition := CurrentPosition r + 1\<rparr>, h', t'))))"

section \<open>Job\<close>

text \<open>
  \<^verbatim>\<open>StartJob\<close>. What the standard library and the operating system answer is the input
  \<open>spawn\<close>: the path that \<^verbatim>\<open>exec.Command\<close> stores in \<^verbatim>\<open>cmd.Path\<close> (for a name without a path
  separator the file that \<^verbatim>\<open>LookPath\<close> finds, and the name itself if it finds none; a name
  with a separator as it is), and the errors of \<^verbatim>\<open>cmd.StdoutPipe()\<close>, \<^verbatim>\<open>cmd.StderrPipe()\<close>
  and \<^verbatim>\<open>cmd.Start()\<close> (\<open>None\<close> for a \<^verbatim>\<open>nil\<close> error). The result is the returned pair (an
  error, or the pointer to the job), the memory after the call and the goroutines the call
  has launched.
\<close>

record spawn =
  Command_Path :: string
  StdoutPipe_result :: "error option"
  StderrPipe_result :: "error option"
  Start_result :: "error option"

datatype goroutine = go_captureOutput JobRef | go_monitorCompletion JobRef

definition StartJob ::
  "spawn \<Rightarrow> string \<Rightarrow> string list \<Rightarrow> memory \<Rightarrow> (error + JobRef) \<times> memory \<times> goroutine list" where
  "StartJob os command args m =
     (let cmd = \<lparr>Path = Command_Path os, Args = command # args, Process = \<lparr>Delivered = []\<rparr>\<rparr> in
      case StdoutPipe_result os of
        Some err \<Rightarrow> (Inl err, m, [])
      | None \<Rightarrow>
          (case StderrPipe_result os of
             Some err \<Rightarrow> (Inl err, m, [])
           | None \<Rightarrow>
               (let (l, logs') = NewLog (Logs m);
                    job = length (Jobs m);
                    m' = \<lparr>Jobs = Jobs m @ [\<lparr>Cmd = cmd, Status = StatusRunning, Log = l\<rparr>],
                          Logs = logs'\<rparr>
                in case Start_result os of
                     Some err \<Rightarrow> (Inl err, m', [go_captureOutput job])
                   | None \<Rightarrow> (Inr job, m', [go_captureOutput job, go_monitorCompletion job]))))"

text \<open>
  \<^verbatim>\<open>_monitorCompletion\<close> (an Isabelle name cannot start with an underscore). The argument is
  the value of \<^verbatim>\<open>job.Cmd.Wait()\<close>, available once the process has exited; the rest of the
  body is one critical section.
\<close>

definition monitorCompletion :: "error option \<Rightarrow> Job \<Rightarrow> Job" where
  "monitorCompletion wait_result job =
     (if wait_result \<noteq> None
      then job\<lparr>Status := StatusFailed\<rparr>
      else job\<lparr>Status := StatusCompleted\<rparr>)"

text \<open>
  \<^verbatim>\<open>Stop\<close>. The first argument is what \<^verbatim>\<open>job.Cmd.Process.Signal(os.Interrupt)\<close> returns when
  it is called: \<open>None\<close> for \<^verbatim>\<open>nil\<close> (the signal was delivered), \<open>Some err\<close> otherwise.
\<close>

definition NotRunningError :: error where
  "NotRunningError = errors_New ''job is not running or has already completed''"

definition Stop :: "error option \<Rightarrow> Job \<Rightarrow> error option \<times> Job" where
  "Stop signal_result job =
     (if Status job \<noteq> StatusRunning
      then (Some NotRunningError, job)
      else (case signal_result of
              Some err \<Rightarrow> (Some err, job)
            | None \<Rightarrow>
                (None,
                 job\<lparr>Cmd := (Cmd job)\<lparr>Process :=
                        (Process (Cmd job))\<lparr>Delivered := Delivered (Process (Cmd job)) @ [Interrupt]\<rparr>\<rparr>,
                     Status := StatusTerminated\<rparr>)))"

definition GetStatus :: "Job \<Rightarrow> JobStatus" where
  "GetStatus job = Status job"

definition NewLogReader :: "Job \<Rightarrow> LogReader" where
  "NewLogReader job = \<lparr>CurrentPosition = 0, log = Log job\<rparr>"




section \<open>The job store and the output handler of the server\<close>

text \<open>
  \<^verbatim>\<open>jobStore.jobs\<close> is a Go map from identifiers to \<^verbatim>\<open>*Job\<close>. The server's \<^verbatim>\<open>StartJob\<close>
  (named \<open>main_StartJob\<close> here, after its package) takes the string of the UUID that
  \<^verbatim>\<open>uuid.New()\<close> draws as an argument.
\<close>

record JobStore =
  jobs :: "string \<rightharpoonup> JobRef"

record server =
  jobStore :: JobStore
  mem :: memory

definition main_StartJob ::
  "spawn \<Rightarrow> string \<Rightarrow> string \<Rightarrow> string list \<Rightarrow> server \<Rightarrow> (error + string) \<times> server" where
  "main_StartJob os uuid command args s =
     (case StartJob os command args (mem s) of
        (Inl err, m', gs) \<Rightarrow> (Inl err, s\<lparr>mem := m'\<rparr>)
      | (Inr j, m', gs) \<Rightarrow>
          (Inr uuid, \<lparr>jobStore = \<lparr>jobs = (jobs (jobStore s))(uuid \<mapsto> j)\<rparr>, mem = m'\<rparr>))"



section \<open>Sequences of calls on the logs\<close>

text \<open>
  A history of the library's log operations: appends by capture goroutines, cursors made by
  \<^verbatim>\<open>NewLogReader\<close>, and reads through the \<open>k\<close>-th cursor made. Next to each cursor the
  state keeps the lines it has returned so far with \<^verbatim>\<open>ok = true\<close> (this list is not
  program state). A read through a cursor that has not been made is no call, and is skipped.
\<close>

datatype call =
  CallAppendLine LogRef string
| CallNewLogReader Job
| CallReadNextLine nat bool

record system =
  Heap :: heap
  Readers :: "(LogReader \<times> string list) list"
  Clock :: nat

fun exec :: "schedule \<Rightarrow> call \<Rightarrow> system \<Rightarrow> (panic + system) option" where
  "exec env (CallAppendLine a line) s =
     (case AppendLine a line (Heap s) of
        Inl p \<Rightarrow> Some (Inl p)
      | Inr h' \<Rightarrow> Some (Inr (s\<lparr>Heap := h'\<rparr>)))"
| "exec env (CallNewLogReader job) s =
     Some (Inr (s\<lparr>Readers := Readers s @ [(NewLogReader job, [])]\<rparr>))"
| "exec env (CallReadNextLine k blocking) s =
     (if length (Readers s) \<le> k then Some (Inr s)
      else (case ReadNextLine blocking (fst (Readers s ! k)) (Heap s) env (Clock s) of
              None \<Rightarrow> None
            | Some (Inl p) \<Rightarrow> Some (Inl p)
            | Some (Inr ((line, ok), r', h', t')) \<Rightarrow>
                Some (Inr \<lparr>Heap = h',
                           Readers = (Readers s)
                             [k := (r', if ok then snd (Readers s ! k) @ [line]
                                        else snd (Readers s ! k))],
                           Clock = t'\<rparr>)))"

fun run :: "schedule \<Rightarrow> call list \<Rightarrow> system \<Rightarrow> (panic + system) option" where
  "run env [] s = Some (Inr s)"
| "run env (c # cs) s =
     (case exec env c s of
        None \<Rightarrow> None
      | Some (Inl p) \<Rightarrow> Some (Inl p)
      | Some (Inr s') \<Rightarrow> run env cs s')"

text \<open>
  What is kept next to a cursor is right when the position is an index, and, if the cursor
  points to a log, the position is at most the length of the log and the lines returned so
  far are the lines of the log below the position.
\<close>

definition cursor_ok :: "heap \<Rightarrow> LogReader \<times> string list \<Rightarrow> bool" where
  "cursor_ok h c =
     (0 \<le> CurrentPosition (fst c) \<and>
      (\<forall>lg. deref h (log (fst c)) = Some lg \<longrightarrow>
         CurrentPosition (fst c) \<le> int (length (Lines lg)) \<and>
         snd c = take (nat (CurrentPosition (fst c))) (Lines lg)))"

text \<open>An example history on one log, with two cursors.\<close>

definition example_job :: Job where
  "example_job = \<lparr>Cmd = \<lparr>Path = ''echo'', Args = [''echo'', ''a''], Process = \<lparr>Delivered = []\<rparr>\<rparr>,
                  Status = StatusRunning, Log = 0\<rparr>"

definition example_calls :: "call list" where
  "example_calls =
     [CallNewLogReader example_job, CallReadNextLine 0 True, CallAppendLine 0 ''b'',
      CallNewLogReader example_job, CallReadNextLine 0 False, CallReadNextLine 0 True,
      CallReadNextLine 1 False, CallReadNextLine 0 False]"

section \<open>Sequences of calls on the job store\<close>











section \<open>Facts about the heap and the waiting loop\<close>

lemma deref_Some_iff: "deref h a = Some x \<longleftrightarrow> a < length h \<and> x = h ! a"
  by (auto simp: deref_def)

lemma deref_None_iff: "deref h a = None \<longleftrightarrow> length h \<le> a"
  by (auto simp: deref_def)

lemma ReadNextLine_wait_induct [consumes 1, case_names nil exit panic loop]:
  assumes ret: "ReadNextLine_wait blocking r h env t = Some y"
    and nil: "\<And>h t. deref h (log r) = None \<Longrightarrow> P h t (Inl NilPointerDereference)"
    and exit: "\<And>h t lg. deref h (log r) = Some lg \<Longrightarrow>
                 \<not> blocking \<or> CurrentPosition r < int (length (Lines lg)) \<Longrightarrow> P h t (Inr (h, t))"
    and panic: "\<And>h t lg p. deref h (log r) = Some lg \<Longrightarrow> blocking \<Longrightarrow>
                 \<not> CurrentPosition r < int (length (Lines lg)) \<Longrightarrow>
                 capture (Appended (env t)) h = Inl p \<Longrightarrow> P h t (Inl p)"
    and loop: "\<And>h t lg h' y. deref h (log r) = Some lg \<Longrightarrow> blocking \<Longrightarrow>
                 \<not> CurrentPosition r < int (length (Lines lg)) \<Longrightarrow>
                 capture (Appended (env t)) h = Inr h' \<Longrightarrow> P h' (Suc t) y \<Longrightarrow> P h t y"
  shows "P h t y"
proof -
  have "blocking = blocking \<longrightarrow> r = r \<longrightarrow> env = env \<longrightarrow> P h t y"
  proof (rule ReadNextLine_wait.raw_induct
      [where P = "\<lambda>b r' h e t y. b = blocking \<longrightarrow> r' = r \<longrightarrow> e = env \<longrightarrow> P h t y", OF _ ret])
    fix wait b r' h e t y
    assume IH: "\<And>b r' h e t y. wait b r' h e t = Some y \<Longrightarrow>
                  b = blocking \<longrightarrow> r' = r \<longrightarrow> e = env \<longrightarrow> P h t y"
      and step: "(case deref h (log r') of
          None \<Rightarrow> Some (Inl NilPointerDereference)
        | Some lg \<Rightarrow>
            if \<not> b \<or> CurrentPosition r' < int (length (Lines lg)) then Some (Inr (h, t))
            else (case capture (Appended (e t)) h of
                    Inl p \<Rightarrow> Some (Inl p)
                  | Inr h' \<Rightarrow> wait b r' h' e (Suc t))) = Some y"
    show "b = blocking \<longrightarrow> r' = r \<longrightarrow> e = env \<longrightarrow> P h t y"
    proof (intro impI)
      assume eq: "b = blocking" "r' = r" "e = env"
      show "P h t y"
      proof (cases "deref h (log r)")
        case None
        with step eq have "y = Inl NilPointerDereference" by auto
        with nil [OF None] show ?thesis by simp
      next
        case (Some lg)
        show ?thesis
        proof (cases "\<not> blocking \<or> CurrentPosition r < int (length (Lines lg))")
          case True
          with step eq Some have "y = Inr (h, t)" by auto
          with exit [OF Some True] show ?thesis by simp
        next
          case False
          show ?thesis
          proof (cases "capture (Appended (env t)) h")
            case (Inl p)
            with step eq Some False have "y = Inl p" by auto
            with panic [OF Some _ _ Inl] False show ?thesis by simp
          next
            case (Inr h')
            with step eq Some False have "wait blocking r h' env (Suc t) = Some y" by auto
            from IH [OF this] have "P h' (Suc t) y" by simp
            with loop [OF Some _ _ Inr] False show ?thesis by simp
          qed
        qed
      qed
    qed
  qed
  then show ?thesis by simp
qed

lemma ReadNextLine_wait_now:
  "deref h (log r) = Some lg \<Longrightarrow> \<not> blocking \<or> CurrentPosition r < int (length (Lines lg)) \<Longrightarrow>
     ReadNextLine_wait blocking r h env t = Some (Inr (h, t))"
  by (subst ReadNextLine_wait.simps) simp

lemma ReadNextLine_wait_exit:
  assumes "ReadNextLine_wait blocking r h env t = Some y"
  shows "\<forall>h' t'. y = Inr (h', t') \<longrightarrow>
        (\<not> blocking \<and> h' = h \<and> t' = t) \<or>
        (\<exists>lg. deref h' (log r) = Some lg \<and> CurrentPosition r < int (length (Lines lg)))"
  using assms
  by (induction rule: ReadNextLine_wait_induct) auto

lemma AppendLine_Inr_iff:
  "AppendLine a line h = Inr h' \<longleftrightarrow>
     a < length h \<and> h' = h[a := (h ! a)\<lparr>Lines := Lines (h ! a) @ [line]\<rparr>]"
  by (auto simp: AppendLine_def deref_def)

lemma AppendLine_length: "AppendLine a line h = Inr h' \<Longrightarrow> length h' = length h"
  by (auto simp: AppendLine_Inr_iff)

lemma AppendLine_prefix:
  "AppendLine a line h = Inr h' \<Longrightarrow> b < length h \<Longrightarrow> prefix (Lines (h ! b)) (Lines (h' ! b))"
  by (cases "b = a") (auto simp: AppendLine_Inr_iff)

lemma capture_length: "capture batch h = Inr h' \<Longrightarrow> length h' = length h"
proof (induction batch arbitrary: h)
  case Nil
  then show ?case by simp
next
  case (Cons c batch)
  obtain a line where c: "c = (a, line)" by (cases c)
  from Cons.prems c obtain h1 where h1: "AppendLine a line h = Inr h1" "capture batch h1 = Inr h'"
    by (auto split: sum.splits)
  from Cons.IH [OF h1(2)] AppendLine_length [OF h1(1)] show ?case by simp
qed

lemma capture_prefix:
  "capture batch h = Inr h' \<Longrightarrow> b < length h \<Longrightarrow> prefix (Lines (h ! b)) (Lines (h' ! b))"
proof (induction batch arbitrary: h)
  case Nil
  then show ?case by simp
next
  case (Cons c batch)
  obtain a line where c: "c = (a, line)" by (cases c)
  from Cons.prems c obtain h1 where h1: "AppendLine a line h = Inr h1" "capture batch h1 = Inr h'"
    by (auto split: sum.splits)
  have "prefix (Lines (h ! b)) (Lines (h1 ! b))"
    using AppendLine_prefix [OF h1(1) Cons.prems(2)] .
  moreover have "prefix (Lines (h1 ! b)) (Lines (h' ! b))"
    using Cons.IH [OF h1(2)] Cons.prems(2) AppendLine_length [OF h1(1)] by simp
  ultimately show ?case by (rule prefix_order.trans)
qed

lemma heap_after_length: "heap_after env t k h = Inr h' \<Longrightarrow> length h' = length h"
proof (induction k arbitrary: h t)
  case 0
  then show ?case by simp
next
  case (Suc k)
  from Suc.prems obtain h1 where h1: "capture (Appended (env t)) h = Inr h1"
      "heap_after env (Suc t) k h1 = Inr h'"
    by (auto split: sum.splits)
  from Suc.IH [OF h1(2)] capture_length [OF h1(1)] show ?case by simp
qed

lemma heap_after_prefix:
  "heap_after env t k h = Inr h' \<Longrightarrow> b < length h \<Longrightarrow> prefix (Lines (h ! b)) (Lines (h' ! b))"
proof (induction k arbitrary: h t)
  case 0
  then show ?case by simp
next
  case (Suc k)
  from Suc.prems obtain h1 where h1: "capture (Appended (env t)) h = Inr h1"
      "heap_after env (Suc t) k h1 = Inr h'"
    by (auto split: sum.splits)
  have "prefix (Lines (h ! b)) (Lines (h1 ! b))"
    using capture_prefix [OF h1(1) Suc.prems(2)] .
  moreover have "prefix (Lines (h1 ! b)) (Lines (h' ! b))"
    using Suc.IH [OF h1(2)] Suc.prems(2) capture_length [OF h1(1)] by simp
  ultimately show ?case by (rule prefix_order.trans)
qed

lemma heap_after_quiet:
  "(\<forall>n\<ge>t. Appended (env n) = []) \<Longrightarrow> heap_after env t k h = Inr h"
  by (induction k arbitrary: t) auto

lemma ReadNextLine_wait_heap:
  assumes "ReadNextLine_wait blocking r h env t = Some y"
  shows "\<forall>h' t'. y = Inr (h', t') \<longrightarrow> t \<le> t' \<and> heap_after env t (t' - t) h = Inr h'"
  using assms
proof (induction rule: ReadNextLine_wait_induct)
  case (loop h t lg h1 y)
  show ?case
  proof (intro allI impI)
    fix h' t'
    assume y: "y = Inr (h', t')"
    with loop.IH have le: "Suc t \<le> t'" and ha: "heap_after env (Suc t) (t' - Suc t) h1 = Inr h'"
      by auto
    from le have "t' - t = Suc (t' - Suc t)" by simp
    with ha loop.hyps le show "t \<le> t' \<and> heap_after env t (t' - t) h = Inr h'"
      by simp
  qed
qed auto

lemma ReadNextLine_wait_first:
  assumes "heap_after env t k h = Inr hk"
    and "\<forall>j<k. \<forall>hj. heap_after env t j h = Inr hj \<longrightarrow>
            \<not> CurrentPosition r < int (length (Lines (hj ! log r)))"
    and "log r < length h"
    and "CurrentPosition r < int (length (Lines (hk ! log r)))"
  shows "ReadNextLine_wait True r h env t = Some (Inr (hk, t + k))"
  using assms
proof (induction k arbitrary: h t)
  case 0
  then show ?case
    by (simp add: ReadNextLine_wait_now deref_def)
next
  case (Suc k)
  from Suc.prems(1) obtain h1 where h1: "capture (Appended (env t)) h = Inr h1"
      "heap_after env (Suc t) k h1 = Inr hk"
    by (auto split: sum.splits)
  from Suc.prems(2) [rule_format, of 0 h]
  have here: "\<not> CurrentPosition r < int (length (Lines (h ! log r)))" by simp
  have later: "\<forall>j<k. \<forall>hj. heap_after env (Suc t) j h1 = Inr hj \<longrightarrow>
            \<not> CurrentPosition r < int (length (Lines (hj ! log r)))"
  proof (intro allI impI)
    fix j hj
    assume "j < k" "heap_after env (Suc t) j h1 = Inr hj"
    with Suc.prems(2) [rule_format, of "Suc j" hj] h1(1)
    show "\<not> CurrentPosition r < int (length (Lines (hj ! log r)))" by simp
  qed
  have len: "log r < length h1"
    using capture_length [OF h1(1)] Suc.prems(3) by simp
  have "ReadNextLine_wait True r h1 env (Suc t) = Some (Inr (hk, Suc t + k))"
    by (rule Suc.IH [OF h1(2) later len Suc.prems(4)])
  with here h1(1) Suc.prems(3) show ?case
    by (subst ReadNextLine_wait.simps) (simp add: deref_def)
qed

lemma ReadNextLine_wait_never:
  assumes "\<forall>k. \<exists>hk. heap_after env t k h = Inr hk \<and>
                 \<not> CurrentPosition r < int (length (Lines (hk ! log r)))"
    and "log r < length h"
  shows "ReadNextLine_wait True r h env t = None"
proof (rule ccontr)
  assume "ReadNextLine_wait True r h env t \<noteq> None"
  then obtain y where "ReadNextLine_wait True r h env t = Some y" by auto
  then have "log r < length h \<longrightarrow> (\<exists>k. \<forall>hk. heap_after env t k h = Inr hk \<longrightarrow>
                 CurrentPosition r < int (length (Lines (hk ! log r))))"
  proof (induction rule: ReadNextLine_wait_induct)
    case (nil h t)
    then show ?case by (simp add: deref_None_iff)
  next
    case (exit h t lg)
    then have "\<forall>hk. heap_after env t 0 h = Inr hk \<longrightarrow>
                 CurrentPosition r < int (length (Lines (hk ! log r)))"
      by (auto simp: deref_Some_iff)
    then show ?case by blast
  next
    case (panic h t lg p)
    then have "\<forall>hk. heap_after env t (Suc 0) h = Inr hk \<longrightarrow>
                 CurrentPosition r < int (length (Lines (hk ! log r)))"
      by simp
    then show ?case by blast
  next
    case (loop h t lg h1 y)
    show ?case
    proof
      assume "log r < length h"
      with capture_length [OF loop.hyps(4)] loop.IH
      obtain k where k: "\<forall>hk. heap_after env (Suc t) k h1 = Inr hk \<longrightarrow>
                 CurrentPosition r < int (length (Lines (hk ! log r)))"
        by auto
      with loop.hyps(4) have "\<forall>hk. heap_after env t (Suc k) h = Inr hk \<longrightarrow>
                 CurrentPosition r < int (length (Lines (hk ! log r)))"
        by simp
      then show "\<exists>k. \<forall>hk. heap_after env t k h = Inr hk \<longrightarrow>
                 CurrentPosition r < int (length (Lines (hk ! log r)))"
        by blast
    qed
  qed
  with assms show False by blast
qed

lemma ReadNextLine_Inr:
  assumes "ReadNextLine blocking r h env t = Some (Inr ((line, ok), r', h', t'))"
  shows "t \<le> t'" and "heap_after env t (t' - t) h = Inr h'" and "log r' = log r"
    and "log r < length h'"
    and "ok \<Longrightarrow> 0 \<le> CurrentPosition r \<and>
                CurrentPosition r < int (length (Lines (h' ! log r))) \<and>
                line = Lines (h' ! log r) ! nat (CurrentPosition r) \<and>
                r' = r\<lparr>CurrentPosition := CurrentPosition r + 1\<rparr>"
    and "\<not> ok \<Longrightarrow> r' = r \<and> int (length (Lines (h' ! log r))) \<le> CurrentPosition r \<and> line = ''''"
proof -
  from assms obtain h1 t1 where w: "ReadNextLine_wait blocking r h env t = Some (Inr (h1, t1))"
    by (auto simp: ReadNextLine_def split: option.splits sum.splits)
  from assms w have tail:
    "(case deref h1 (log r) of
        None \<Rightarrow> Some (Inl NilPointerDereference)
      | Some lg \<Rightarrow>
          if CurrentPosition r \<ge> int (length (Lines lg))
          then Some (Inr (('''', False), r, h1, t1))
          else if CurrentPosition r < 0 then Some (Inl IndexOutOfRange)
          else Some (Inr ((Lines lg ! nat (CurrentPosition r), True),
                          r\<lparr>CurrentPosition := CurrentPosition r + 1\<rparr>, h1, t1))) =
     Some (Inr ((line, ok), r', h', t'))"
    by (simp add: ReadNextLine_def)
  then have eq: "h' = h1" "t' = t1"
    by (auto split: option.splits if_splits)
  from ReadNextLine_wait_heap [OF w] eq
  show "t \<le> t'" and "heap_after env t (t' - t) h = Inr h'" by auto
  from tail show "log r' = log r"
    by (auto split: option.splits if_splits)
  from tail eq show "log r < length h'"
    by (auto simp: deref_def split: option.splits if_splits)
  from tail eq show "ok \<Longrightarrow> 0 \<le> CurrentPosition r \<and>
                CurrentPosition r < int (length (Lines (h' ! log r))) \<and>
                line = Lines (h' ! log r) ! nat (CurrentPosition r) \<and>
                r' = r\<lparr>CurrentPosition := CurrentPosition r + 1\<rparr>"
    by (auto simp: deref_def split: option.splits if_splits)
  from tail eq show "\<not> ok \<Longrightarrow> r' = r \<and> int (length (Lines (h' ! log r))) \<le> CurrentPosition r \<and> line = ''''"
    by (auto simp: deref_def split: option.splits if_splits)
qed

lemma exec_length:
  assumes "exec env c s = Some (Inr s')"
  shows "length (Heap s') = length (Heap s)"
proof (cases c)
  case (CallAppendLine a line)
  with assms show ?thesis
    by (auto split: sum.splits dest: AppendLine_length)
next
  case (CallNewLogReader job)
  with assms show ?thesis by auto
next
  case (CallReadNextLine k blocking)
  show ?thesis
  proof (cases "length (Readers s) \<le> k")
    case True
    with assms CallReadNextLine show ?thesis by simp
  next
    case False
    with assms CallReadNextLine obtain line ok r' h' t'
      where rd: "ReadNextLine blocking (fst (Readers s ! k)) (Heap s) env (Clock s) =
                   Some (Inr ((line, ok), r', h', t'))" and s': "Heap s' = h'"
      by (auto split: option.splits sum.splits)
    from ReadNextLine_Inr(2) [OF rd] s' show ?thesis
      by (simp add: heap_after_length)
  qed
qed

lemma exec_prefix:
  assumes "exec env c s = Some (Inr s')" and "b < length (Heap s)"
  shows "prefix (Lines (Heap s ! b)) (Lines (Heap s' ! b))"
proof (cases c)
  case (CallAppendLine a line)
  with assms show ?thesis
    by (auto split: sum.splits dest: AppendLine_prefix)
next
  case (CallNewLogReader job)
  with assms show ?thesis by auto
next
  case (CallReadNextLine k blocking)
  show ?thesis
  proof (cases "length (Readers s) \<le> k")
    case True
    with assms CallReadNextLine show ?thesis by simp
  next
    case False
    with assms CallReadNextLine obtain line ok r' h' t'
      where rd: "ReadNextLine blocking (fst (Readers s ! k)) (Heap s) env (Clock s) =
                   Some (Inr ((line, ok), r', h', t'))" and s': "Heap s' = h'"
      by (auto split: option.splits sum.splits)
    from ReadNextLine_Inr(2) [OF rd] s' assms(2) show ?thesis
      by (simp add: heap_after_prefix)
  qed
qed

lemma run_grows:
  assumes "run env calls s = Some (Inr s')"
  shows "length (Heap s') = length (Heap s) \<and>
         (\<forall>b<length (Heap s). prefix (Lines (Heap s ! b)) (Lines (Heap s' ! b)))"
  using assms
proof (induction calls arbitrary: s)
  case Nil
  then show ?case by simp
next
  case (Cons c calls)
  from Cons.prems obtain s1 where s1: "exec env c s = Some (Inr s1)"
      "run env calls s1 = Some (Inr s')"
    by (auto split: option.splits sum.splits)
  from Cons.IH [OF s1(2)] exec_length [OF s1(1)] exec_prefix [OF s1(1)]
  show ?case
    by (auto intro: prefix_order.trans)
qed

lemma example_run:
  "run line_at_second_tick example_calls \<lparr>Heap = [\<lparr>Lines = [''a'']\<rparr>], Readers = [], Clock = 0\<rparr> =
    Some (Inr \<lparr>Heap = [\<lparr>Lines = [''a'', ''b'', ''hello'', ''world'']\<rparr>],
               Readers = [(\<lparr>CurrentPosition = 4, log = 0\<rparr>, [''a'', ''b'', ''hello'', ''world'']),
                          (\<lparr>CurrentPosition = 1, log = 0\<rparr>, [''a''])],
               Clock = 2\<rparr>)"
  by (simp add: example_calls_def example_job_def line_at_second_tick_def NewLogReader_def
      ReadNextLine_def ReadNextLine_wait.simps AppendLine_def deref_def)

lemma take_prefix_eq: "prefix xs ys \<Longrightarrow> n \<le> length xs \<Longrightarrow> take n ys = take n xs"
  by (auto simp: prefix_def)

lemma cursor_ok_grow:
  assumes "cursor_ok h c" and "length h' = length h"
    and "\<forall>b<length h. prefix (Lines (h ! b)) (Lines (h' ! b))"
  shows "cursor_ok h' c"
proof (cases "log (fst c) < length h")
  case True
  with assms(3) have pre: "prefix (Lines (h ! log (fst c))) (Lines (h' ! log (fst c)))" by simp
  from assms(1) True have pos: "0 \<le> CurrentPosition (fst c)"
    and le: "CurrentPosition (fst c) \<le> int (length (Lines (h ! log (fst c))))"
    and seen: "snd c = take (nat (CurrentPosition (fst c))) (Lines (h ! log (fst c)))"
    by (simp_all add: cursor_ok_def deref_def)
  from le pos have n: "nat (CurrentPosition (fst c)) \<le> length (Lines (h ! log (fst c)))" by simp
  from pre have "length (Lines (h ! log (fst c))) \<le> length (Lines (h' ! log (fst c)))"
    by (rule prefix_length_le)
  with le have "CurrentPosition (fst c) \<le> int (length (Lines (h' ! log (fst c))))" by simp
  moreover have "snd c = take (nat (CurrentPosition (fst c))) (Lines (h' ! log (fst c)))"
    using take_prefix_eq [OF pre n] seen by simp
  ultimately show ?thesis
    using pos by (simp add: cursor_ok_def deref_def)
next
  case False
  with assms(1,2) show ?thesis by (simp add: cursor_ok_def deref_def)
qed

lemma cursor_ok_read:
  assumes ok: "cursor_ok h' (r, seen)" and valid: "log r < length h'"
    and lt: "CurrentPosition r < int (length (Lines (h' ! log r)))"
  shows "cursor_ok h' (r\<lparr>CurrentPosition := CurrentPosition r + 1\<rparr>,
                       seen @ [Lines (h' ! log r) ! nat (CurrentPosition r)])"
proof -
  from ok valid have pos: "0 \<le> CurrentPosition r"
    and seen: "seen = take (nat (CurrentPosition r)) (Lines (h' ! log r))"
    by (simp_all add: cursor_ok_def deref_def)
  from pos lt have n: "nat (CurrentPosition r) < length (Lines (h' ! log r))" by simp
  from pos have "nat (CurrentPosition r + 1) = Suc (nat (CurrentPosition r))" by simp
  with seen take_Suc_conv_app_nth [OF n]
  have "seen @ [Lines (h' ! log r) ! nat (CurrentPosition r)] =
          take (nat (CurrentPosition r + 1)) (Lines (h' ! log r))"
    by simp
  with pos lt valid show ?thesis
    by (simp add: cursor_ok_def deref_def)
qed

lemma exec_cursor_ok:
  assumes inv: "\<forall>c\<in>set (Readers s). cursor_ok (Heap s) c"
    and ex: "exec env call s = Some (Inr s')"
  shows "\<forall>c\<in>set (Readers s'). cursor_ok (Heap s') c"
proof -
  have grown: "\<forall>c\<in>set (Readers s). cursor_ok (Heap s') c"
    using inv exec_length [OF ex] exec_prefix [OF ex]
    by (auto intro: cursor_ok_grow)
  show ?thesis
  proof (cases call)
    case (CallAppendLine a line)
    with ex have "Readers s' = Readers s" by (auto split: sum.splits)
    with grown show ?thesis by simp
  next
    case (CallNewLogReader job)
    with ex have "Readers s' = Readers s @ [(NewLogReader job, [])]" by auto
    moreover have "cursor_ok (Heap s') (NewLogReader job, [])"
      by (simp add: cursor_ok_def NewLogReader_def)
    ultimately show ?thesis using grown by auto
  next
    case (CallReadNextLine k blocking)
    show ?thesis
    proof (cases "length (Readers s) \<le> k")
      case True
      with ex CallReadNextLine have "s' = s" by simp
      with inv show ?thesis by simp
    next
      case False
      with ex CallReadNextLine obtain line ok r' h' t'
        where rd: "ReadNextLine blocking (fst (Readers s ! k)) (Heap s) env (Clock s) =
                     Some (Inr ((line, ok), r', h', t'))"
          and s': "Heap s' = h'"
            "Readers s' = (Readers s)[k := (r', if ok then snd (Readers s ! k) @ [line]
                                                else snd (Readers s ! k))]"
        by (auto split: option.splits sum.splits)
      let ?r = "fst (Readers s ! k)" and ?seen = "snd (Readers s ! k)"
      from False grown s' have old: "cursor_ok h' (?r, ?seen)" by simp
      have new: "cursor_ok h' (r', if ok then ?seen @ [line] else ?seen)"
      proof (cases ok)
        case True
        from ReadNextLine_Inr(5) [OF rd True] ReadNextLine_Inr(4) [OF rd] old
        show ?thesis using True by (simp add: cursor_ok_read)
      next
        case False
        from ReadNextLine_Inr(6) [OF rd False] old show ?thesis using False by simp
      qed
      show ?thesis
      proof
        fix c
        assume "c \<in> set (Readers s')"
        with s'(2) have "c \<in> insert (r', if ok then ?seen @ [line] else ?seen) (set (Readers s))"
          using set_update_subset_insert by fastforce
        with new grown s'(1) show "cursor_ok (Heap s') c" by auto
      qed
    qed
  qed
qed

lemma run_cursor_ok:
  assumes "\<forall>c\<in>set (Readers s). cursor_ok (Heap s) c"
    and "run env calls s = Some (Inr s')"
  shows "\<forall>c\<in>set (Readers s'). cursor_ok (Heap s') c"
  using assms
proof (induction calls arbitrary: s)
  case Nil
  then show ?case by simp
next
  case (Cons c calls)
  from Cons.prems(2) obtain s1 where s1: "exec env c s = Some (Inr s1)"
      "run env calls s1 = Some (Inr s')"
    by (auto split: option.splits sum.splits)
  from Cons.IH [OF exec_cursor_ok [OF Cons.prems(1) s1(1)] s1(2)] show ?case .
qed

lemma exec_read_frame:
  assumes "exec env (CallReadNextLine k blocking) s = Some (Inr s')"
  shows "length (Readers s') = length (Readers s)"
    and "\<forall>j<length (Readers s). j \<noteq> k \<longrightarrow> Readers s' ! j = Readers s ! j"
    and "Clock s \<le> Clock s'"
    and "heap_after env (Clock s) (Clock s' - Clock s) (Heap s) = Inr (Heap s')"
    and "\<not> blocking \<longrightarrow> Heap s' = Heap s"
proof -
  have "length (Readers s') = length (Readers s) \<and>
        (\<forall>j<length (Readers s). j \<noteq> k \<longrightarrow> Readers s' ! j = Readers s ! j) \<and>
        Clock s \<le> Clock s' \<and>
        heap_after env (Clock s) (Clock s' - Clock s) (Heap s) = Inr (Heap s') \<and>
        (\<not> blocking \<longrightarrow> Heap s' = Heap s)"
  proof (cases "length (Readers s) \<le> k")
    case True
    with assms show ?thesis by simp
  next
    case False
    with assms obtain line ok r' h' t'
      where rd: "ReadNextLine blocking (fst (Readers s ! k)) (Heap s) env (Clock s) =
                   Some (Inr ((line, ok), r', h', t'))"
        and s': "s' = \<lparr>Heap = h',
                       Readers = (Readers s)[k := (r', if ok then snd (Readers s ! k) @ [line]
                                                        else snd (Readers s ! k))],
                       Clock = t'\<rparr>"
      by (auto split: option.splits sum.splits)
    have nb: "\<not> blocking \<longrightarrow> h' = Heap s"
    proof
      assume "\<not> blocking"
      with rd show "h' = Heap s"
        by (auto simp: ReadNextLine_def ReadNextLine_wait.simps split: option.splits if_splits)
    qed
    from ReadNextLine_Inr(1,2) [OF rd] nb s' show ?thesis by simp
  qed
  then show "length (Readers s') = length (Readers s)"
    and "\<forall>j<length (Readers s). j \<noteq> k \<longrightarrow> Readers s' ! j = Readers s ! j"
    and "Clock s \<le> Clock s'"
    and "heap_after env (Clock s) (Clock s' - Clock s) (Heap s) = Inr (Heap s')"
    and "\<not> blocking \<longrightarrow> Heap s' = Heap s"
    by simp_all
qed


lemma main_StartJob_Inr:
  "main_StartJob os uuid command args s = (Inr jobID, s') \<Longrightarrow>
     jobID = uuid \<and> fst (StartJob os command args (mem s)) = Inr (length (Jobs (mem s))) \<and>
     mem s' = fst (snd (StartJob os command args (mem s)))"
  by (auto simp: main_StartJob_def StartJob_def NewLog_def Let_def split: option.splits)








lemma ReadNextLine_wait_same_appends_Some:
  assumes "ReadNextLine_wait blocking r h env t = Some y"
    and same: "\<forall>n. Appended (env' n) = Appended (env n)"
  shows "ReadNextLine_wait blocking r h env' t = Some y"
  using assms(1)
proof (induction rule: ReadNextLine_wait_induct)
  case (nil h t)
  then show ?case by (subst ReadNextLine_wait.simps) simp
next
  case (exit h t lg)
  then show ?case by (simp add: ReadNextLine_wait_now)
next
  case (panic h t lg p)
  with same show ?case by (subst ReadNextLine_wait.simps) simp
next
  case (loop h t lg h' y)
  with same show ?case by (subst ReadNextLine_wait.simps) simp
qed

lemma ReadNextLine_wait_same_appends:
  assumes same: "\<forall>n. Appended (env' n) = Appended (env n)"
  shows "ReadNextLine_wait blocking r h env' t = ReadNextLine_wait blocking r h env t"
proof (cases "ReadNextLine_wait blocking r h env t")
  case (Some y)
  with ReadNextLine_wait_same_appends_Some [OF Some same] show ?thesis by simp
next
  case None
  show ?thesis
  proof (cases "ReadNextLine_wait blocking r h env' t")
    case None
    with \<open>ReadNextLine_wait blocking r h env t = None\<close> show ?thesis by simp
  next
    case (Some y)
    from same have "\<forall>n. Appended (env n) = Appended (env' n)" by simp
    from ReadNextLine_wait_same_appends_Some [OF Some this] None show ?thesis by simp
  qed
qed

lemma ReadNextLine_ignores_Canceled:
  "ReadNextLine blocking r h (\<lambda>n. (env n)\<lparr>Canceled := c n\<rparr>) t = ReadNextLine blocking r h env t"
proof -
  have "ReadNextLine_wait blocking r h (\<lambda>n. (env n)\<lparr>Canceled := c n\<rparr>) t =
        ReadNextLine_wait blocking r h env t"
    by (rule ReadNextLine_wait_same_appends) simp
  then show ?thesis by (simp add: ReadNextLine_def)
qed




section \<open>Stop\<close>

text \<open>
  Claim C3. \<^verbatim>\<open>Stop\<close> on a job whose status is not \<open>Running\<close> returns the
  not-running error and leaves the job as it was. On a \<open>Running\<close> job it sends the interrupt
  signal; if the signal is delivered the status becomes \<open>Terminated\<close> in the same call
  (nothing else of the job changes, and the call does not depend on the process having
  exited), and if the signal cannot be delivered the error of the signal call is returned and
  the job, its status included, is left as it was.
\<close>

theorem Stop_cases:
  "(Status job \<noteq> StatusRunning \<longrightarrow> Stop sig job = (Some NotRunningError, job)) \<and>
   (Status job = StatusRunning \<longrightarrow>
      Stop None job =
        (None, job\<lparr>Cmd := (Cmd job)\<lparr>Process := \<lparr>Delivered = Delivered (Process (Cmd job)) @ [Interrupt]\<rparr>\<rparr>,
                   Status := StatusTerminated\<rparr>) \<and>
      Stop (Some err) job = (Some err, job) \<and>
      Status (snd (Stop (Some err) job)) = StatusRunning)"
  by (simp add: Stop_def)

theorem Stop_cases_witness:
  "Status \<lparr>Cmd = \<lparr>Path = ''echo'', Args = [''echo'', ''hi''], Process = \<lparr>Delivered = []\<rparr>\<rparr>,
           Status = StatusCompleted, Log = 0\<rparr> \<noteq> StatusRunning \<and>
   Stop None \<lparr>Cmd = \<lparr>Path = ''echo'', Args = [''echo'', ''hi''], Process = \<lparr>Delivered = []\<rparr>\<rparr>,
              Status = StatusCompleted, Log = 0\<rparr> =
     (Some NotRunningError,
      \<lparr>Cmd = \<lparr>Path = ''echo'', Args = [''echo'', ''hi''], Process = \<lparr>Delivered = []\<rparr>\<rparr>,
       Status = StatusCompleted, Log = 0\<rparr>) \<and>
   Status \<lparr>Cmd = \<lparr>Path = ''sleep'', Args = [''sleep'', ''10''], Process = \<lparr>Delivered = []\<rparr>\<rparr>,
           Status = StatusRunning, Log = 0\<rparr> = StatusRunning \<and>
   Stop None \<lparr>Cmd = \<lparr>Path = ''sleep'', Args = [''sleep'', ''10''], Process = \<lparr>Delivered = []\<rparr>\<rparr>,
              Status = StatusRunning, Log = 0\<rparr> =
     (None,
      \<lparr>Cmd = \<lparr>Path = ''sleep'', Args = [''sleep'', ''10''], Process = \<lparr>Delivered = [Interrupt]\<rparr>\<rparr>,
       Status = StatusTerminated, Log = 0\<rparr>) \<and>
   Stop (Some (os_error ''os: process already finished''))
        \<lparr>Cmd = \<lparr>Path = ''sleep'', Args = [''sleep'', ''10''], Process = \<lparr>Delivered = []\<rparr>\<rparr>,
         Status = StatusRunning, Log = 0\<rparr> =
     (Some (os_error ''os: process already finished''),
      \<lparr>Cmd = \<lparr>Path = ''sleep'', Args = [''sleep'', ''10''], Process = \<lparr>Delivered = []\<rparr>\<rparr>,
       Status = StatusRunning, Log = 0\<rparr>)"
  using Stop_cases [of "\<lparr>Cmd = \<lparr>Path = ''echo'', Args = [''echo'', ''hi''], Process = \<lparr>Delivered = []\<rparr>\<rparr>,
                         Status = StatusCompleted, Log = 0\<rparr>" None]
        Stop_cases [of "\<lparr>Cmd = \<lparr>Path = ''sleep'', Args = [''sleep'', ''10''], Process = \<lparr>Delivered = []\<rparr>\<rparr>,
                         Status = StatusRunning, Log = 0\<rparr>" _ "os_error ''os: process already finished''"]
  by simp

section \<open>The status after Stop and process exit\<close>

text \<open>
  Claim C1. The claim is that a status set to \<open>Terminated\<close> by \<^verbatim>\<open>Stop\<close> is never
  overwritten by the completion monitor. What the code does on a job running
  \<^verbatim>\<open>sleep 10\<close>: \<^verbatim>\<open>Stop\<close> delivers the interrupt and sets \<open>Terminated\<close>; the process dies of the
  signal, \<^verbatim>\<open>Wait\<close> returns an error, and the monitor, which does not look at the status,
  sets \<open>Failed\<close>.
\<close>

theorem monitorCompletion_after_Stop:
  "Stop None \<lparr>Cmd = \<lparr>Path = ''sleep'', Args = [''sleep'', ''10''], Process = \<lparr>Delivered = []\<rparr>\<rparr>,
              Status = StatusRunning, Log = 0\<rparr> =
     (None,
      \<lparr>Cmd = \<lparr>Path = ''sleep'', Args = [''sleep'', ''10''], Process = \<lparr>Delivered = [Interrupt]\<rparr>\<rparr>,
       Status = StatusTerminated, Log = 0\<rparr>) \<and>
   GetStatus (monitorCompletion (Some (os_error ''signal: interrupt''))
      \<lparr>Cmd = \<lparr>Path = ''sleep'', Args = [''sleep'', ''10''], Process = \<lparr>Delivered = [Interrupt]\<rparr>\<rparr>,
       Status = StatusTerminated, Log = 0\<rparr>) = StatusFailed"
  by (simp add: Stop_def monitorCompletion_def GetStatus_def)

section \<open>ReadNextLine\<close>

text \<open>
  Claim C2. Let the cursor point to a log and let its position be an index (not
  negative). If the position is below the length of the log, \<^verbatim>\<open>ReadNextLine\<close> returns the
  line at the position with \<^verbatim>\<open>ok = true\<close> and the position advanced by one, whatever the
  blocking flag is, and it returns at the tick it was called at, with the heap it was called
  on: it has not waited. If the position equals the length and the call is not blocking, it
  returns the empty line with \<^verbatim>\<open>ok = false\<close>, again at once.
\<close>

theorem ReadNextLine_available:
  assumes "deref h (log r) = Some lg" and "0 \<le> CurrentPosition r"
  shows "(CurrentPosition r < int (length (Lines lg)) \<longrightarrow>
            ReadNextLine blocking r h env t =
              Some (Inr ((Lines lg ! nat (CurrentPosition r), True),
                         r\<lparr>CurrentPosition := CurrentPosition r + 1\<rparr>, h, t))) \<and>
         (CurrentPosition r = int (length (Lines lg)) \<longrightarrow>
            ReadNextLine False r h env t = Some (Inr (('''', False), r, h, t)))"
  using assms by (simp add: ReadNextLine_def ReadNextLine_wait_now)

theorem ReadNextLine_available_witness:
  "deref [\<lparr>Lines = [''line1'', ''line2'']\<rparr>] (log \<lparr>CurrentPosition = 1, log = 0\<rparr>) =
     Some \<lparr>Lines = [''line1'', ''line2'']\<rparr> \<and>
   0 \<le> CurrentPosition \<lparr>CurrentPosition = 1, log = 0\<rparr> \<and>
   CurrentPosition \<lparr>CurrentPosition = 1, log = 0\<rparr> < int (length [''line1'', ''line2'']) \<and>
   ReadNextLine True \<lparr>CurrentPosition = 1, log = 0\<rparr> [\<lparr>Lines = [''line1'', ''line2'']\<rparr>]
       (\<lambda>n. \<lparr>Appended = [], Canceled = False\<rparr>) 0 =
     Some (Inr ((''line2'', True), \<lparr>CurrentPosition = 2, log = 0\<rparr>,
                [\<lparr>Lines = [''line1'', ''line2'']\<rparr>], 0)) \<and>
   CurrentPosition \<lparr>CurrentPosition = 2, log = 0\<rparr> = int (length [''line1'', ''line2'']) \<and>
   ReadNextLine False \<lparr>CurrentPosition = 2, log = 0\<rparr> [\<lparr>Lines = [''line1'', ''line2'']\<rparr>]
       (\<lambda>n. \<lparr>Appended = [], Canceled = False\<rparr>) 0 =
     Some (Inr (('''', False), \<lparr>CurrentPosition = 2, log = 0\<rparr>,
                [\<lparr>Lines = [''line1'', ''line2'']\<rparr>], 0))"
proof -
  have d1: "deref [\<lparr>Lines = [''line1'', ''line2'']\<rparr>] (log \<lparr>CurrentPosition = 1, log = 0\<rparr>) =
              Some \<lparr>Lines = [''line1'', ''line2'']\<rparr>"
    and d2: "deref [\<lparr>Lines = [''line1'', ''line2'']\<rparr>] (log \<lparr>CurrentPosition = 2, log = 0\<rparr>) =
              Some \<lparr>Lines = [''line1'', ''line2'']\<rparr>"
    by (simp_all add: deref_def)
  have p1: "0 \<le> CurrentPosition \<lparr>CurrentPosition = 1, log = 0\<rparr>"
    and p2: "0 \<le> CurrentPosition \<lparr>CurrentPosition = 2, log = 0\<rparr>"
    by simp_all
  show ?thesis
    using d1 ReadNextLine_available [OF d1 p1, of True "\<lambda>n. \<lparr>Appended = [], Canceled = False\<rparr>" 0]
      ReadNextLine_available [OF d2 p2, of True "\<lambda>n. \<lparr>Appended = [], Canceled = False\<rparr>" 0]
    by simp
qed

text \<open>
  Claim C10. A call of \<^verbatim>\<open>ReadNextLine\<close> that returns \<^verbatim>\<open>ok = false\<close> returns the cursor it
  was given, position included, and the heap it was given, so every log has the lines it had;
  the returned line is empty and no tick has passed. (Only a non-blocking call can return
  \<^verbatim>\<open>ok = false\<close>.)
\<close>

theorem ReadNextLine_not_ok_frame:
  assumes "ReadNextLine blocking r h env t = Some (Inr ((line, False), r', h', t'))"
  shows "r' = r \<and> h' = h \<and> t' = t \<and> line = '''' \<and> \<not> blocking"
proof -
  from assms obtain h1 t1 where w: "ReadNextLine_wait blocking r h env t = Some (Inr (h1, t1))"
    by (auto simp: ReadNextLine_def split: option.splits sum.splits)
  from assms w obtain lg where lg: "deref h1 (log r) = Some lg"
      and ge: "CurrentPosition r \<ge> int (length (Lines lg))"
      and eqs: "r' = r" "h' = h1" "t' = t1" "line = ''''"
    by (auto simp: ReadNextLine_def split: option.splits if_splits)
  from ReadNextLine_wait_exit [OF w] lg ge have "\<not> blocking \<and> h1 = h \<and> t1 = t"
    by auto
  with eqs show ?thesis by simp
qed

theorem ReadNextLine_not_ok_frame_witness:
  "ReadNextLine False \<lparr>CurrentPosition = 2, log = 0\<rparr> [\<lparr>Lines = [''line1'', ''line2'']\<rparr>]
       (\<lambda>n. \<lparr>Appended = [(0, ''line3'')], Canceled = False\<rparr>) 5 =
     Some (Inr (('''', False), \<lparr>CurrentPosition = 2, log = 0\<rparr>,
                [\<lparr>Lines = [''line1'', ''line2'']\<rparr>], 5)) \<and>
   \<lparr>CurrentPosition = 2, log = 0\<rparr> = \<lparr>CurrentPosition = 2, log = 0\<rparr> \<and>
   [\<lparr>Lines = [''line1'', ''line2'']\<rparr>] = [\<lparr>Lines = [''line1'', ''line2'']\<rparr>]"
proof -
  have h: "ReadNextLine False \<lparr>CurrentPosition = 2, log = 0\<rparr> [\<lparr>Lines = [''line1'', ''line2'']\<rparr>]
       (\<lambda>n. \<lparr>Appended = [(0, ''line3'')], Canceled = False\<rparr>) 5 =
     Some (Inr (('''', False), \<lparr>CurrentPosition = 2, log = 0\<rparr>,
                [\<lparr>Lines = [''line1'', ''line2'']\<rparr>], 5))"
    by (simp add: ReadNextLine_def ReadNextLine_wait.simps deref_def)
  show ?thesis
    using h ReadNextLine_not_ok_frame [OF h] by simp
qed

text \<open>
  Claim C4, as the code has it. A blocking \<^verbatim>\<open>ReadNextLine\<close> on a cursor whose position
  equals the length of its log polls: it looks at the log under the lock, and while there is
  no line at its position it unlocks, sleeps 10 ms and looks again. If the log gets longer at
  some tick and was not longer at the ticks before, the call returns there, with the first
  line that was appended, \<^verbatim>\<open>ok = true\<close> and the position advanced by one; a line appended
  between two polls is found by the next poll, since lines are never removed. If the log
  never gets longer, the call never returns. The \<open>Canceled\<close> flags of the schedule play no
  part, whatever they are: there is no cancellation.
\<close>

theorem ReadNextLine_blocking_wait:
  assumes "deref h (log r) = Some lg" and "CurrentPosition r = int (length (Lines lg))"
  shows "(heap_after env t k h = Inr hk \<and>
          (\<forall>j<k. \<forall>hj. heap_after env t j h = Inr hj \<longrightarrow>
                     length (Lines (hj ! log r)) = length (Lines lg)) \<and>
          length (Lines lg) < length (Lines (hk ! log r)) \<longrightarrow>
          ReadNextLine True r h env t =
            Some (Inr ((Lines (hk ! log r) ! length (Lines lg), True),
                       r\<lparr>CurrentPosition := CurrentPosition r + 1\<rparr>, hk, t + k))) \<and>
         ((\<forall>k. \<exists>hk. heap_after env t k h = Inr hk \<and>
                     length (Lines (hk ! log r)) = length (Lines lg)) \<longrightarrow>
          ReadNextLine True r h env t = None) \<and>
         (\<forall>c. ReadNextLine True r h (\<lambda>n. (env n)\<lparr>Canceled := c n\<rparr>) t =
              ReadNextLine True r h env t)"
proof (intro conjI impI)
  assume a: "heap_after env t k h = Inr hk \<and>
          (\<forall>j<k. \<forall>hj. heap_after env t j h = Inr hj \<longrightarrow>
                     length (Lines (hj ! log r)) = length (Lines lg)) \<and>
          length (Lines lg) < length (Lines (hk ! log r))"
  from assms(1) have valid: "log r < length h" by (simp add: deref_Some_iff)
  have "ReadNextLine_wait True r h env t = Some (Inr (hk, t + k))"
    using a assms(2) by (intro ReadNextLine_wait_first valid) auto
  moreover have "log r < length hk"
    using heap_after_length [of env t k h hk] a valid by simp
  ultimately show "ReadNextLine True r h env t =
            Some (Inr ((Lines (hk ! log r) ! length (Lines lg), True),
                       r\<lparr>CurrentPosition := CurrentPosition r + 1\<rparr>, hk, t + k))"
    using a assms(2) by (simp add: ReadNextLine_def deref_def)
next
  assume b: "\<forall>k. \<exists>hk. heap_after env t k h = Inr hk \<and>
                     length (Lines (hk ! log r)) = length (Lines lg)"
  from assms(1) have valid: "log r < length h" by (simp add: deref_Some_iff)
  have "ReadNextLine_wait True r h env t = None"
  proof (rule ReadNextLine_wait_never [OF _ valid], rule allI)
    fix k
    from b obtain hk where "heap_after env t k h = Inr hk"
        "length (Lines (hk ! log r)) = length (Lines lg)" by blast
    with assms(2) show "\<exists>hk. heap_after env t k h = Inr hk \<and>
                 \<not> CurrentPosition r < int (length (Lines (hk ! log r)))" by simp
  qed
  then show "ReadNextLine True r h env t = None"
    by (simp add: ReadNextLine_def)
next
  show "\<forall>c. ReadNextLine True r h (\<lambda>n. (env n)\<lparr>Canceled := c n\<rparr>) t =
              ReadNextLine True r h env t"
    by (simp add: ReadNextLine_ignores_Canceled)
qed

theorem ReadNextLine_blocking_wait_witness:
  "deref [\<lparr>Lines = []\<rparr>] (log \<lparr>CurrentPosition = 0, log = 0\<rparr>) = Some \<lparr>Lines = []\<rparr> \<and>
   CurrentPosition \<lparr>CurrentPosition = 0, log = 0\<rparr> = int (length (Lines \<lparr>Lines = []\<rparr>)) \<and>
   heap_after line_at_second_tick 0 2 [\<lparr>Lines = []\<rparr>] = Inr [\<lparr>Lines = [''hello'', ''world'']\<rparr>] \<and>
   ReadNextLine True \<lparr>CurrentPosition = 0, log = 0\<rparr> [\<lparr>Lines = []\<rparr>] line_at_second_tick 0 =
     Some (Inr ((''hello'', True), \<lparr>CurrentPosition = 1, log = 0\<rparr>,
                [\<lparr>Lines = [''hello'', ''world'']\<rparr>], 2)) \<and>
   (\<forall>k. heap_after disconnected_idle 7 k [\<lparr>Lines = []\<rparr>] = Inr [\<lparr>Lines = []\<rparr>]) \<and>
   ReadNextLine True \<lparr>CurrentPosition = 0, log = 0\<rparr> [\<lparr>Lines = []\<rparr>] disconnected_idle 7 = None"
proof -
  have d: "deref [\<lparr>Lines = []\<rparr>] (log \<lparr>CurrentPosition = 0, log = 0\<rparr>) = Some \<lparr>Lines = []\<rparr>"
    by (simp add: deref_def)
  have p: "CurrentPosition \<lparr>CurrentPosition = 0, log = 0\<rparr> = int (length (Lines \<lparr>Lines = []\<rparr>))"
    by simp
  have h0: "heap_after line_at_second_tick 0 0 [\<lparr>Lines = []\<rparr>] = Inr [\<lparr>Lines = []\<rparr>]"
    and h1: "heap_after line_at_second_tick 0 (Suc 0) [\<lparr>Lines = []\<rparr>] = Inr [\<lparr>Lines = []\<rparr>]"
    and h2: "heap_after line_at_second_tick 0 2 [\<lparr>Lines = []\<rparr>] =
              Inr [\<lparr>Lines = [''hello'', ''world'']\<rparr>]"
    by (simp_all add: line_at_second_tick_def numeral_2_eq_2 AppendLine_def deref_def)
  have q: "\<forall>k. heap_after disconnected_idle 7 k [\<lparr>Lines = []\<rparr>] = Inr [\<lparr>Lines = []\<rparr>]"
    by (simp add: heap_after_quiet disconnected_idle_def)
  show ?thesis
    using d p h0 h1 h2 q
      ReadNextLine_blocking_wait [OF d p, of line_at_second_tick 0 2 "[\<lparr>Lines = [''hello'', ''world'']\<rparr>]"]
      ReadNextLine_blocking_wait [OF d p, of disconnected_idle 7]
    by (simp add: less_Suc_eq numeral_2_eq_2)
qed

text \<open>
  A blocking read on an empty log whose client has disconnected, with no line ever appended
  again, does not return.
\<close>

theorem ReadNextLine_blocking_canceled:
  "ReadNextLine True \<lparr>CurrentPosition = 0, log = 0\<rparr> [\<lparr>Lines = []\<rparr>] disconnected_idle 0 = None"
proof -
  have "\<forall>k. \<exists>hk. heap_after disconnected_idle 0 k [\<lparr>Lines = []\<rparr>] = Inr hk \<and>
          \<not> CurrentPosition \<lparr>CurrentPosition = 0, log = 0\<rparr>
              < int (length (Lines (hk ! log \<lparr>CurrentPosition = 0, log = 0\<rparr>)))"
    by (simp add: heap_after_quiet disconnected_idle_def)
  then have "ReadNextLine_wait True \<lparr>CurrentPosition = 0, log = 0\<rparr> [\<lparr>Lines = []\<rparr>]
               disconnected_idle 0 = None"
    by (rule ReadNextLine_wait_never) simp
  then show ?thesis by (simp add: ReadNextLine_def)
qed

section \<open>The log is append-only\<close>

text \<open>
  Claim C5. \<^verbatim>\<open>AppendLine\<close> on a log puts the line at the end of the log's lines and
  changes nothing else. After any sequence of appends, cursor creations and reads (blocking
  reads included, with whatever the environment appends while they wait) that runs to its
  end, every log that existed before is still there, is at least as long as it was, and has
  at every index it had the line it had there.
\<close>

theorem log_append_only:
  "(deref h a = Some lg \<longrightarrow>
      AppendLine a line h = Inr (h[a := lg\<lparr>Lines := Lines lg @ [line]\<rparr>])) \<and>
   (run env calls s = Some (Inr s') \<longrightarrow> deref (Heap s) a = Some lg \<longrightarrow>
      (\<exists>lg'. deref (Heap s') a = Some lg' \<and>
             length (Lines lg) \<le> length (Lines lg') \<and>
             (\<forall>i<length (Lines lg). Lines lg' ! i = Lines lg ! i)))"
proof (intro conjI impI)
  assume "deref h a = Some lg"
  then show "AppendLine a line h = Inr (h[a := lg\<lparr>Lines := Lines lg @ [line]\<rparr>])"
    by (simp add: AppendLine_def)
next
  assume r: "run env calls s = Some (Inr s')" and d: "deref (Heap s) a = Some lg"
  from d have a: "a < length (Heap s)" and lg: "lg = Heap s ! a"
    by (simp_all add: deref_Some_iff)
  from run_grows [OF r] a have len: "a < length (Heap s')"
    and pre: "prefix (Lines lg) (Lines (Heap s' ! a))"
    by (simp_all add: lg)
  from pre obtain zs where zs: "Lines (Heap s' ! a) = Lines lg @ zs"
    by (auto simp: prefix_def)
  have "deref (Heap s') a = Some (Heap s' ! a)"
    using len by (simp add: deref_def)
  moreover have "length (Lines lg) \<le> length (Lines (Heap s' ! a))"
    by (simp add: zs)
  moreover have "\<forall>i<length (Lines lg). Lines (Heap s' ! a) ! i = Lines lg ! i"
    by (simp add: zs nth_append)
  ultimately show "\<exists>lg'. deref (Heap s') a = Some lg' \<and>
             length (Lines lg) \<le> length (Lines lg') \<and>
             (\<forall>i<length (Lines lg). Lines lg' ! i = Lines lg ! i)"
    by blast
qed

theorem log_append_only_witness:
  "deref [\<lparr>Lines = [''a'']\<rparr>] 0 = Some \<lparr>Lines = [''a'']\<rparr> \<and>
   AppendLine 0 ''b'' [\<lparr>Lines = [''a'']\<rparr>] = Inr [\<lparr>Lines = [''a'', ''b'']\<rparr>] \<and>
   run line_at_second_tick example_calls \<lparr>Heap = [\<lparr>Lines = [''a'']\<rparr>], Readers = [], Clock = 0\<rparr> =
     Some (Inr \<lparr>Heap = [\<lparr>Lines = [''a'', ''b'', ''hello'', ''world'']\<rparr>],
                Readers = [(\<lparr>CurrentPosition = 4, log = 0\<rparr>, [''a'', ''b'', ''hello'', ''world'']),
                           (\<lparr>CurrentPosition = 1, log = 0\<rparr>, [''a''])],
                Clock = 2\<rparr>) \<and>
   (\<exists>lg'. deref [\<lparr>Lines = [''a'', ''b'', ''hello'', ''world'']\<rparr>] 0 = Some lg' \<and>
          length [''a''] \<le> length (Lines lg') \<and> Lines lg' ! 0 = [''a''] ! 0)"
proof -
  have d: "deref [\<lparr>Lines = [''a'']\<rparr>] 0 = Some \<lparr>Lines = [''a'']\<rparr>"
    by (simp add: deref_def)
  show ?thesis
    using d example_run
      log_append_only [of "[\<lparr>Lines = [''a'']\<rparr>]" 0 "\<lparr>Lines = [''a'']\<rparr>" "''b''"
        line_at_second_tick example_calls
        "\<lparr>Heap = [\<lparr>Lines = [''a'']\<rparr>], Readers = [], Clock = 0\<rparr>"
        "\<lparr>Heap = [\<lparr>Lines = [''a'', ''b'', ''hello'', ''world'']\<rparr>],
          Readers = [(\<lparr>CurrentPosition = 4, log = 0\<rparr>, [''a'', ''b'', ''hello'', ''world'']),
                     (\<lparr>CurrentPosition = 1, log = 0\<rparr>, [''a''])],
          Clock = 2\<rparr>"]
    by simp
qed

section \<open>Cursors over one log\<close>

text \<open>
  Claim C6. Take any history of appends, cursor creations and reads that starts with no
  cursor and runs to its end. Every cursor made by \<^verbatim>\<open>NewLogReader\<close> starts at position 0 on
  the job's log. For every cursor that points to a log, the position is an index that does
  not exceed the length of the log, and the lines the cursor has returned are exactly the
  lines of the log below its position; so of two cursors on the same log, the one that is
  not ahead has returned a prefix of what the other has returned. A read through one cursor
  leaves every other cursor as it was, and changes the heap by nothing but what the
  environment appends while the read waits (a non-blocking read leaves the heap as it was).
\<close>

theorem cursors_independent:
  assumes "run env calls \<lparr>Heap = h, Readers = [], Clock = t\<rparr> = Some (Inr s)"
  shows "(\<forall>k<length (Readers s). \<forall>lg.
            deref (Heap s) (log (fst (Readers s ! k))) = Some lg \<longrightarrow>
              0 \<le> CurrentPosition (fst (Readers s ! k)) \<and>
              CurrentPosition (fst (Readers s ! k)) \<le> int (length (Lines lg)) \<and>
              snd (Readers s ! k) = take (nat (CurrentPosition (fst (Readers s ! k)))) (Lines lg)) \<and>
         (\<forall>j<length (Readers s). \<forall>k<length (Readers s).
            log (fst (Readers s ! j)) = log (fst (Readers s ! k)) \<longrightarrow>
            log (fst (Readers s ! k)) < length (Heap s) \<longrightarrow>
            CurrentPosition (fst (Readers s ! j)) \<le> CurrentPosition (fst (Readers s ! k)) \<longrightarrow>
              prefix (snd (Readers s ! j)) (snd (Readers s ! k))) \<and>
         (\<forall>k blocking s'. exec env (CallReadNextLine k blocking) s = Some (Inr s') \<longrightarrow>
            length (Readers s') = length (Readers s) \<and>
            (\<forall>j<length (Readers s). j \<noteq> k \<longrightarrow> Readers s' ! j = Readers s ! j) \<and>
            heap_after env (Clock s) (Clock s' - Clock s) (Heap s) = Inr (Heap s') \<and>
            (\<not> blocking \<longrightarrow> Heap s' = Heap s)) \<and>
         (\<forall>job. NewLogReader job = \<lparr>CurrentPosition = 0, log = Log job\<rparr>)"
proof (intro conjI)
  have inv: "\<forall>c\<in>set (Readers s). cursor_ok (Heap s) c"
    by (rule run_cursor_ok [OF _ assms]) simp
  show first: "\<forall>k<length (Readers s). \<forall>lg.
            deref (Heap s) (log (fst (Readers s ! k))) = Some lg \<longrightarrow>
              0 \<le> CurrentPosition (fst (Readers s ! k)) \<and>
              CurrentPosition (fst (Readers s ! k)) \<le> int (length (Lines lg)) \<and>
              snd (Readers s ! k) = take (nat (CurrentPosition (fst (Readers s ! k)))) (Lines lg)"
  proof (intro allI impI)
    fix k lg
    assume "k < length (Readers s)" and d: "deref (Heap s) (log (fst (Readers s ! k))) = Some lg"
    with inv have "cursor_ok (Heap s) (Readers s ! k)" by simp
    with d show "0 \<le> CurrentPosition (fst (Readers s ! k)) \<and>
              CurrentPosition (fst (Readers s ! k)) \<le> int (length (Lines lg)) \<and>
              snd (Readers s ! k) = take (nat (CurrentPosition (fst (Readers s ! k)))) (Lines lg)"
      by (simp add: cursor_ok_def)
  qed
  show "\<forall>j<length (Readers s). \<forall>k<length (Readers s).
            log (fst (Readers s ! j)) = log (fst (Readers s ! k)) \<longrightarrow>
            log (fst (Readers s ! k)) < length (Heap s) \<longrightarrow>
            CurrentPosition (fst (Readers s ! j)) \<le> CurrentPosition (fst (Readers s ! k)) \<longrightarrow>
              prefix (snd (Readers s ! j)) (snd (Readers s ! k))"
  proof (intro allI impI)
    fix j k
    assume j: "j < length (Readers s)" and k: "k < length (Readers s)"
      and same: "log (fst (Readers s ! j)) = log (fst (Readers s ! k))"
      and valid: "log (fst (Readers s ! k)) < length (Heap s)"
      and le: "CurrentPosition (fst (Readers s ! j)) \<le> CurrentPosition (fst (Readers s ! k))"
    let ?lg = "Heap s ! log (fst (Readers s ! k))"
    from valid have dk: "deref (Heap s) (log (fst (Readers s ! k))) = Some ?lg"
      by (simp add: deref_def)
    with same have dj: "deref (Heap s) (log (fst (Readers s ! j))) = Some ?lg" by simp
    from first [rule_format, OF j dj] first [rule_format, OF k dk] le
    have sj: "snd (Readers s ! j) = take (nat (CurrentPosition (fst (Readers s ! j)))) (Lines ?lg)"
      and sk: "snd (Readers s ! k) = take (nat (CurrentPosition (fst (Readers s ! k)))) (Lines ?lg)"
      and n: "nat (CurrentPosition (fst (Readers s ! j))) \<le> nat (CurrentPosition (fst (Readers s ! k)))"
      by simp_all
    have "prefix (take (nat (CurrentPosition (fst (Readers s ! j)))) (Lines ?lg))
                 (take (nat (CurrentPosition (fst (Readers s ! k)))) (Lines ?lg))"
      using n by (metis min.absorb1 take_is_prefix take_take)
    with sj sk show "prefix (snd (Readers s ! j)) (snd (Readers s ! k))" by simp
  qed
  show "\<forall>k blocking s'. exec env (CallReadNextLine k blocking) s = Some (Inr s') \<longrightarrow>
            length (Readers s') = length (Readers s) \<and>
            (\<forall>j<length (Readers s). j \<noteq> k \<longrightarrow> Readers s' ! j = Readers s ! j) \<and>
            heap_after env (Clock s) (Clock s' - Clock s) (Heap s) = Inr (Heap s') \<and>
            (\<not> blocking \<longrightarrow> Heap s' = Heap s)"
  proof (intro allI impI)
    fix k blocking s'
    assume e: "exec env (CallReadNextLine k blocking) s = Some (Inr s')"
    from exec_read_frame [OF e]
    show "length (Readers s') = length (Readers s) \<and>
            (\<forall>j<length (Readers s). j \<noteq> k \<longrightarrow> Readers s' ! j = Readers s ! j) \<and>
            heap_after env (Clock s) (Clock s' - Clock s) (Heap s) = Inr (Heap s') \<and>
            (\<not> blocking \<longrightarrow> Heap s' = Heap s)"
      by simp
  qed
  show "\<forall>job. NewLogReader job = \<lparr>CurrentPosition = 0, log = Log job\<rparr>"
    by (simp add: NewLogReader_def)
qed

theorem cursors_independent_witness:
  "run line_at_second_tick example_calls \<lparr>Heap = [\<lparr>Lines = [''a'']\<rparr>], Readers = [], Clock = 0\<rparr> =
     Some (Inr \<lparr>Heap = [\<lparr>Lines = [''a'', ''b'', ''hello'', ''world'']\<rparr>],
                Readers = [(\<lparr>CurrentPosition = 4, log = 0\<rparr>, [''a'', ''b'', ''hello'', ''world'']),
                           (\<lparr>CurrentPosition = 1, log = 0\<rparr>, [''a''])],
                Clock = 2\<rparr>) \<and>
   exec line_at_second_tick (CallReadNextLine 1 False)
        \<lparr>Heap = [\<lparr>Lines = [''a'', ''b'', ''hello'', ''world'']\<rparr>],
         Readers = [(\<lparr>CurrentPosition = 4, log = 0\<rparr>, [''a'', ''b'', ''hello'', ''world'']),
                    (\<lparr>CurrentPosition = 1, log = 0\<rparr>, [''a''])],
         Clock = 2\<rparr> =
     Some (Inr \<lparr>Heap = [\<lparr>Lines = [''a'', ''b'', ''hello'', ''world'']\<rparr>],
                Readers = [(\<lparr>CurrentPosition = 4, log = 0\<rparr>, [''a'', ''b'', ''hello'', ''world'']),
                           (\<lparr>CurrentPosition = 2, log = 0\<rparr>, [''a'', ''b''])],
                Clock = 2\<rparr>) \<and>
   take (nat 1) [''a'', ''b'', ''hello'', ''world''] = [''a''] \<and>
   prefix [''a''] [''a'', ''b'', ''hello'', ''world''] \<and>
   NewLogReader example_job = \<lparr>CurrentPosition = 0, log = 0\<rparr>"
proof -
  have e: "exec line_at_second_tick (CallReadNextLine 1 False)
        \<lparr>Heap = [\<lparr>Lines = [''a'', ''b'', ''hello'', ''world'']\<rparr>],
         Readers = [(\<lparr>CurrentPosition = 4, log = 0\<rparr>, [''a'', ''b'', ''hello'', ''world'']),
                    (\<lparr>CurrentPosition = 1, log = 0\<rparr>, [''a''])],
         Clock = 2\<rparr> =
     Some (Inr \<lparr>Heap = [\<lparr>Lines = [''a'', ''b'', ''hello'', ''world'']\<rparr>],
                Readers = [(\<lparr>CurrentPosition = 4, log = 0\<rparr>, [''a'', ''b'', ''hello'', ''world'']),
                           (\<lparr>CurrentPosition = 2, log = 0\<rparr>, [''a'', ''b''])],
                Clock = 2\<rparr>)"
    by (simp add: ReadNextLine_def ReadNextLine_wait.simps deref_def)
  note T = cursors_independent [OF example_run]
  note T1 = T [THEN conjunct1, rule_format, of 1 "\<lparr>Lines = [''a'', ''b'', ''hello'', ''world'']\<rparr>"]
  note T2 = T [THEN conjunct2, THEN conjunct1, rule_format, of 1 0]
  note T3 = T [THEN conjunct2, THEN conjunct2, THEN conjunct1, rule_format, OF e]
  note T4 = T [THEN conjunct2, THEN conjunct2, THEN conjunct2, rule_format, of example_job]
  have a: "take (nat 1) [''a'', ''b'', ''hello'', ''world''] = [''a'']"
    using T1 by (simp add: deref_def)
  have b: "prefix [''a''] [''a'', ''b'', ''hello'', ''world'']"
    using T2 by simp
  show ?thesis
    using example_run e a b T3 T4 by (simp add: example_job_def)
qed


section \<open>StartJob\<close>

text \<open>
  Claim C7 says that when the command cannot be launched \<^verbatim>\<open>StartJob\<close> returns an error and
  no job is created. What the code does when \<^verbatim>\<open>cmd.Start()\<close> fails, here for a command that
  is not found: it returns the error and a \<^verbatim>\<open>nil\<close> job, but by then it has allocated the
  job, with status \<open>Running\<close> and a new log, and has launched the capture goroutine on it.
  That goroutine runs as long as the status is \<open>Running\<close>, and nothing can set the status
  of this job: the monitor is not launched and the pointer is not returned. When a pipe
  cannot be made, which the code finds out before it builds the job, nothing is created.
\<close>

theorem StartJob_failed_Start_leaves_job:
  "StartJob \<lparr>Command_Path = ''nosuchcommand'', StdoutPipe_result = None, StderrPipe_result = None,
             Start_result = Some (os_error ''executable file not found in $PATH'')\<rparr>
      ''nosuchcommand'' [] \<lparr>Jobs = [], Logs = []\<rparr> =
     (Inl (os_error ''executable file not found in $PATH''),
      \<lparr>Jobs = [\<lparr>Cmd = \<lparr>Path = ''nosuchcommand'', Args = [''nosuchcommand''],
                        Process = \<lparr>Delivered = []\<rparr>\<rparr>,
                 Status = StatusRunning, Log = 0\<rparr>],
       Logs = [\<lparr>Lines = []\<rparr>]\<rparr>,
      [go_captureOutput 0]) \<and>
   StartJob \<lparr>Command_Path = ''/usr/bin/echo'',
             StdoutPipe_result = Some (os_error ''pipe: too many open files''),
             StderrPipe_result = None, Start_result = None\<rparr>
      ''echo'' [''hi''] \<lparr>Jobs = [], Logs = []\<rparr> =
     (Inl (os_error ''pipe: too many open files''), \<lparr>Jobs = [], Logs = []\<rparr>, [])"
  by (simp add: StartJob_def NewLog_def)

text \<open>
  The rest holds on every path. \<^verbatim>\<open>StartJob\<close> returns an error exactly when one of the three
  calls fails, and the error is the one the failing call gave; the server then registers
  nothing. When it succeeds it returns a pointer to a job that was not there before, whose
  status read by \<^verbatim>\<open>GetStatus\<close> is \<open>Running\<close> and whose log is new and empty, and it has
  launched the capture and the monitor goroutines.
\<close>

lemma StartJob_outcomes:
  "((\<exists>err. fst (StartJob os command args m) = Inl err) \<longleftrightarrow>
      (StdoutPipe_result os \<noteq> None \<or> StderrPipe_result os \<noteq> None \<or> Start_result os \<noteq> None)) \<and>
   (\<forall>err. fst (StartJob os command args m) = Inl err \<longrightarrow>
      Some err \<in> {StdoutPipe_result os, StderrPipe_result os, Start_result os}) \<and>
   (\<forall>err uuid s s'. main_StartJob os uuid command args s = (Inl err, s') \<longrightarrow>
      jobStore s' = jobStore s) \<and>
   (\<forall>j m' gs. StartJob os command args m = (Inr j, m', gs) \<longrightarrow>
      (\<exists>job. deref (Jobs m') j = Some job \<and> GetStatus job = StatusRunning \<and>
             deref (Logs m') (Log job) = Some \<lparr>Lines = []\<rparr>) \<and>
      deref (Jobs m) j = None \<and>
      gs = [go_captureOutput j, go_monitorCompletion j])"
proof (intro conjI allI impI)
  show "(\<exists>err. fst (StartJob os command args m) = Inl err) \<longleftrightarrow>
      (StdoutPipe_result os \<noteq> None \<or> StderrPipe_result os \<noteq> None \<or> Start_result os \<noteq> None)"
    by (auto simp: StartJob_def NewLog_def Let_def split: option.splits)
next
  fix err
  assume "fst (StartJob os command args m) = Inl err"
  then show "Some err \<in> {StdoutPipe_result os, StderrPipe_result os, Start_result os}"
    by (auto simp: StartJob_def NewLog_def Let_def split: option.splits)
next
  fix err uuid s s'
  assume "main_StartJob os uuid command args s = (Inl err, s')"
  then show "jobStore s' = jobStore s"
    by (auto simp: main_StartJob_def split: prod.splits sum.splits)
next
  fix j m' gs
  assume a: "StartJob os command args m = (Inr j, m', gs)"
  then show "\<exists>job. deref (Jobs m') j = Some job \<and> GetStatus job = StatusRunning \<and>
             deref (Logs m') (Log job) = Some \<lparr>Lines = []\<rparr>"
    by (auto simp: StartJob_def NewLog_def Let_def deref_def GetStatus_def nth_append
             split: option.splits)
  from a show "deref (Jobs m) j = None"
    by (auto simp: StartJob_def NewLog_def Let_def deref_def split: option.splits)
  from a show "gs = [go_captureOutput j, go_monitorCompletion j]"
    by (auto simp: StartJob_def NewLog_def Let_def split: option.splits)
qed

section \<open>GetOutput\<close>



section \<open>The job store\<close>




end
